theory Spec2Isabelle
  imports Main "HOL-Library.Word"
begin

section \<open>JavaScript values\<close>

text \<open>
  The agent is dynamically typed: \<open>authInfo\<close>, the session service's answers and the
  request handed to \<open>authenticateRequest\<close> are arbitrary JavaScript values. A string is
  a list of 16-bit code units; \<open>str\<close> writes one from its ASCII text. An object is the
  list of its own properties, oldest first. Numbers are integers here (no \<open>NaN\<close>).
\<close>

type_synonym codeunit = "16 word"

type_synonym jsstring = "codeunit list"

definition str :: "string \<Rightarrow> jsstring" where
  "str s = map of_char s"

datatype jsval =
    JUndefined
  | JNull
  | JBool bool
  | JNum int
  | JStr jsstring
  | JObj "(jsstring \<times> jsval) list"

text \<open>What \<open>if (v)\<close> and \<open>a && b\<close> test.\<close>

fun truthy :: "jsval \<Rightarrow> bool" where
  "truthy JUndefined = False"
| "truthy JNull = False"
| "truthy (JBool b) = b"
| "truthy (JNum n) = (n \<noteq> 0)"
| "truthy (JStr s) = (s \<noteq> [])"
| "truthy (JObj ps) = True"

text \<open>
  Reading \<open>v.k\<close> throws a TypeError when \<open>v\<close> is \<open>null\<close> or \<open>undefined\<close>; on every
  other value it yields the property, \<open>undefined\<close> when there is none. None of the
  property names the agent reads is inherited by a string, number or boolean.
\<close>

definition nullish :: "jsval \<Rightarrow> bool" where
  "nullish v = (v = JUndefined \<or> v = JNull)"

fun property :: "jsval \<Rightarrow> jsstring \<Rightarrow> jsval" where
  "property (JObj ps) k = (case map_of ps k of Some v \<Rightarrow> v | None \<Rightarrow> JUndefined)"
| "property v k = JUndefined"

text \<open>
  Writing \<open>o[k] = v\<close>: an existing property keeps its place, a new one goes last. The
  module is in strict mode, so the write throws on anything that is not an object
  (\<open>None\<close> here).
\<close>

fun assign :: "(jsstring \<times> jsval) list \<Rightarrow> jsstring \<Rightarrow> jsval \<Rightarrow> (jsstring \<times> jsval) list" where
  "assign [] k v = [(k, v)]"
| "assign ((k', v') # ps) k v = (if k' = k then (k, v) # ps else (k', v') # assign ps k v)"

fun setProp :: "jsval \<Rightarrow> jsstring \<Rightarrow> jsval \<Rightarrow> jsval option" where
  "setProp (JObj ps) k v = Some (JObj (assign ps k v))"
| "setProp w k v = None"

datatype error = CAPIError string | TypeError

section \<open>The collaborators\<close>

text \<open>
  Modelled from the spec: the storage (\<open>storages/LocalStorage\<close>, not among the sources).
  \<open>getItem\<close> returns the stored value, or \<open>null\<close> for a key never set or removed;
  \<open>setItem\<close> and \<open>removeItem\<close> are total.
\<close>

type_synonym StorageAbstraction = "jsstring \<rightharpoonup> jsval"

definition getItem :: "StorageAbstraction \<Rightarrow> jsstring \<Rightarrow> jsval" where
  "getItem s k = (case s k of Some v \<Rightarrow> v | None \<Rightarrow> JNull)"

definition setItem :: "StorageAbstraction \<Rightarrow> jsstring \<Rightarrow> jsval \<Rightarrow> StorageAbstraction" where
  "setItem s k v = s(k \<mapsto> v)"

definition removeItem :: "StorageAbstraction \<Rightarrow> jsstring \<Rightarrow> StorageAbstraction" where
  "removeItem s k = s(k := None)"

text \<open>
  Modelled from the spec: the session service (\<open>CAPI.getUserService()\<close>, not among the
  sources). \<open>createSession\<close>, \<open>refreshSession\<close> and \<open>deleteSession\<close> answer a call by
  invoking the callback they are given once, with an \<open>error\<close> and a result; the field
  holds that pair. \<open>newSessionCreateStruct\<close> builds the payload of a create request.
\<close>

record userService =
  newSessionCreateStruct :: "jsval \<Rightarrow> jsval \<Rightarrow> jsval"
  createSession :: "jsval \<Rightarrow> jsval \<times> jsval"
  refreshSession :: "jsval \<Rightarrow> jsval \<times> jsval"
  deleteSession :: "jsval \<Rightarrow> jsval \<times> jsval"

text \<open>
  What an observer sees of a run, oldest first: the calls the session service receives,
  and (through the callback \<open>report\<close> below) the arguments a caller's callback is
  invoked with.
\<close>

datatype event =
    NewSessionCreateStruct jsval jsval
  | CreateSession jsval
  | RefreshSession jsval
  | DeleteSession jsval
  | Resolved jsval jsval

section \<open>SessionAuthAgent\<close>

text \<open>
  The object's four properties (\<open>_CAPI\<close>, \<open>_login\<close>, \<open>_password\<close>, \<open>_storage\<close>; \<open>_CAPI\<close>
  is \<open>null\<close> until \<open>setCAPI\<close>), and the observer's \<open>trace\<close>, which the code does not
  have. \<open>storage\<close> is the content of the storage object the agent refers to.
\<close>

record agent =
  CAPI :: "userService option"
  login :: jsval
  password :: jsval
  storage :: StorageAbstraction
  trace :: "event list"

text \<open>
  A call either returns, leaving the agent in a state, or throws; a throw keeps what was
  written before it. A callback is run at the point where the code invokes it and may
  itself do anything to the agent.
\<close>

datatype outcome = Returned agent | Thrown error agent

type_synonym callback = "jsval \<Rightarrow> jsval \<Rightarrow> agent \<Rightarrow> outcome"

definition KEY_SESSION_NAME :: jsstring where
  "KEY_SESSION_NAME = str ''ezpRestClient.sessionName''"

definition KEY_SESSION_ID :: jsstring where
  "KEY_SESSION_ID = str ''ezpRestClient.sessionId''"

definition KEY_SESSION_HREF :: jsstring where
  "KEY_SESSION_HREF = str ''ezpRestClient.sessionHref''"

definition KEY_CSRF_TOKEN :: jsstring where
  "KEY_CSRF_TOKEN = str ''ezpRestClient.csrfToken''"

definition setCAPI :: "agent \<Rightarrow> userService option \<Rightarrow> agent" where
  "setCAPI this capi = this\<lparr>CAPI := capi\<rparr>"

definition setCredentials :: "agent \<Rightarrow> jsval \<Rightarrow> outcome" where
  "setCredentials this credentials =
     (if nullish credentials then Thrown TypeError this
      else Returned (this\<lparr>login := property credentials (str ''login''),
                          password := property credentials (str ''password'')\<rparr>))"

definition resetStorage :: "agent \<Rightarrow> agent" where
  "resetStorage this =
     (let s1 = removeItem (storage this) KEY_SESSION_NAME;
          s2 = removeItem s1 KEY_SESSION_ID;
          s3 = removeItem s2 KEY_SESSION_HREF;
          s4 = removeItem s3 KEY_CSRF_TOKEN
      in this\<lparr>storage := s4\<rparr>)"

definition storeSessionInfo :: "agent \<Rightarrow> jsval \<Rightarrow> outcome" where
  "storeSessionInfo this session =
     (if nullish session then Thrown TypeError this
      else
        let s1 = setItem (storage this) KEY_SESSION_NAME (property session (str ''name''));
            s2 = setItem s1 KEY_SESSION_HREF (property session (str ''href''));
            s3 = setItem s2 KEY_SESSION_ID (property session (str ''identifier''));
            s4 = setItem s3 KEY_CSRF_TOKEN (property session (str ''csrfToken''))
        in Returned (this\<lparr>storage := s4\<rparr>))"

text \<open>
  The two tests of the constructor, named: \<open>authInfo.login && authInfo.password\<close> and
  \<open>authInfo.csrfToken && authInfo.identifier && authInfo.name && authInfo.href\<close>.
\<close>

definition hasCredentials :: "jsval \<Rightarrow> bool" where
  "hasCredentials authInfo =
     (truthy (property authInfo (str ''login'')) \<and> truthy (property authInfo (str ''password'')))"

definition hasSessionInfo :: "jsval \<Rightarrow> bool" where
  "hasSessionInfo authInfo =
     (truthy (property authInfo (str ''csrfToken'')) \<and> truthy (property authInfo (str ''identifier'')) \<and>
      truthy (property authInfo (str ''name'')) \<and> truthy (property authInfo (str ''href'')))"

text \<open>
  The constructor. Its second argument is the storage the agent ends up with: the one
  supplied, or the \<open>LocalStorage\<close> made by default.
\<close>

definition newAgent :: "StorageAbstraction \<Rightarrow> agent" where
  "newAgent st = \<lparr>CAPI = None, login = JStr [], password = JStr [], storage = st, trace = []\<rparr>"

definition SessionAuthAgent :: "jsval \<Rightarrow> StorageAbstraction \<Rightarrow> outcome" where
  "SessionAuthAgent authInfo st =
     (let this = newAgent st in
      if truthy authInfo then
        if hasCredentials authInfo then setCredentials this authInfo
        else if hasSessionInfo authInfo then storeSessionInfo this authInfo
        else Thrown (CAPIError ''Invalid authInfo parameter'') this
      else Returned this)"

text \<open>
  \<open>String.prototype.toUpperCase\<close>, code unit by code unit, as the Unicode tables have
  it for Basic Latin (\<open>asciiUpper\<close>), Latin-1 (\<open>latin1Upper\<close>: micro sign to U+039C,
  sharp s to SS, y with diaeresis to U+0178), Latin Extended-A (\<open>latinAUpper\<close>: dotless i
  to I, U+0149 to U+02BC N, long s to S) and the ligatures U+FB00 to U+FB06
  (\<open>ligatureUpper\<close>: FF, FI, FL, FFI, FFL, ST, ST). Every other code unit is left alone
  here. JavaScript changes some of those as well, but only to results that hold a code
  unit outside ASCII, so they never make the result one of the keys of \<open>SAFE_METHODS\<close>:
  the lookup below is decided as in JavaScript for every string. Calling \<open>toUpperCase\<close>
  on a value that is not a string throws a TypeError (\<open>None\<close>).
\<close>

definition asciiUpper :: "nat \<Rightarrow> codeunit \<Rightarrow> jsstring" where
  "asciiUpper n u = (if 97 \<le> n \<and> n \<le> 122 then [of_nat (n - 32)] else [u])"

definition latin1Upper :: "nat \<Rightarrow> codeunit \<Rightarrow> jsstring" where
  "latin1Upper n u =
     (if n = 181 then [924]
      else if n = 223 then [83, 83]
      else if n = 255 then [376]
      else if 224 \<le> n \<and> n \<noteq> 247 then [of_nat (n - 32)]
      else [u])"

definition latinAUpper :: "nat \<Rightarrow> codeunit \<Rightarrow> jsstring" where
  "latinAUpper n u =
     (if n = 305 then [73]
      else if n = 329 then [700, 78]
      else if n = 383 then [83]
      else if (n \<le> 311 \<or> 330 \<le> n \<and> n \<le> 375) \<and> odd n then [of_nat (n - 1)]
      else if (313 \<le> n \<and> n \<le> 328 \<or> 377 \<le> n) \<and> even n then [of_nat (n - 1)]
      else [u])"

definition ligatureUpper :: "nat \<Rightarrow> jsstring" where
  "ligatureUpper n =
     (if n = 64256 then [70, 70]
      else if n = 64257 then [70, 73]
      else if n = 64258 then [70, 76]
      else if n = 64259 then [70, 70, 73]
      else if n = 64260 then [70, 70, 76]
      else [83, 84])"

definition toUpperUnit :: "codeunit \<Rightarrow> jsstring" where
  "toUpperUnit u =
     (let n = unat u in
      if n < 128 then asciiUpper n u
      else if n < 256 then latin1Upper n u
      else if n < 384 then latinAUpper n u
      else if 64256 \<le> n \<and> n \<le> 64262 then ligatureUpper n
      else [u])"

definition toUpperString :: "jsstring \<Rightarrow> jsstring" where
  "toUpperString s = concat (map toUpperUnit s)"

fun toUpperCase :: "jsval \<Rightarrow> jsstring option" where
  "toUpperCase (JStr s) = Some (toUpperString s)"
| "toUpperCase v = None"

text \<open>
  Every property an object literal inherits has a lower-case letter in its name, so a
  lookup by an upper-cased name finds the four own properties only.
\<close>

definition SAFE_METHODS :: jsval where
  "SAFE_METHODS =
     JObj [(str ''GET'', JNum 1), (str ''HEAD'', JNum 1), (str ''OPTIONS'', JNum 1),
           (str ''TRACE'', JNum 1)]"

definition isLoggedIn :: "agent \<Rightarrow> callback \<Rightarrow> outcome" where
  "isLoggedIn this callback =
     (case CAPI this of
        None \<Rightarrow> Thrown TypeError this
      | Some userService \<Rightarrow>
          let sessionId = getItem (storage this) KEY_SESSION_ID in
          if sessionId = JNull then callback (JBool True) (JBool False) this
          else
            let (error, result) = refreshSession userService sessionId;
                that = this\<lparr>trace := trace this @ [RefreshSession sessionId]\<rparr>
            in callback error result (if truthy error then resetStorage that else that))"

text \<open>
  The value of \<open>sessionResponse.document.Session\<close>; \<open>None\<close> when reading it throws.
\<close>

definition sessionOf :: "jsval \<Rightarrow> jsval option" where
  "sessionOf sessionResponse =
     (if nullish sessionResponse then None
      else
        let document = property sessionResponse (str ''document'') in
        if nullish document then None else Some (property document (str ''Session'')))"

definition ensureAuthentication :: "agent \<Rightarrow> callback \<Rightarrow> outcome" where
  "ensureAuthentication this done =
     (if getItem (storage this) KEY_SESSION_ID \<noteq> JNull then done (JBool False) (JBool True) this
      else
        (case CAPI this of
           None \<Rightarrow> Thrown TypeError this
         | Some userService \<Rightarrow>
             (let sessionCreateStruct =
                    newSessionCreateStruct userService (login this) (password this);
                  (error, sessionResponse) = createSession userService sessionCreateStruct;
                  that = this\<lparr>trace := trace this @
                           [NewSessionCreateStruct (login this) (password this),
                            CreateSession sessionCreateStruct]\<rparr>
              in
                if truthy error then done error sessionResponse that
                else
                  (case sessionOf sessionResponse of
                     None \<Rightarrow> Thrown TypeError that
                   | Some session \<Rightarrow>
                       if nullish session then Thrown TypeError that
                       else
                         (case storeSessionInfo that
                                 (JObj [(str ''name'', property session (str ''name'')),
                                        (str ''href'', property session (str ''_href'')),
                                        (str ''identifier'', property session (str ''identifier'')),
                                        (str ''csrfToken'', property session (str ''csrfToken''))]) of
                            Thrown e t \<Rightarrow> Thrown e t
                          | Returned stored \<Rightarrow> done (JBool False) sessionResponse stored)))))"

text \<open>
  \<open>request.headers["X-CSRF-Token"] = token\<close> changes the headers object in place; the
  request still refers to it, so the request the callback sees has the new headers.
\<close>

definition authenticateRequest :: "agent \<Rightarrow> jsval \<Rightarrow> callback \<Rightarrow> outcome" where
  "authenticateRequest this request done =
     (let token = getItem (storage this) KEY_CSRF_TOKEN in
      if nullish request then Thrown TypeError this
      else
        case toUpperCase (property request (str ''method'')) of
          None \<Rightarrow> Thrown TypeError this
        | Some method \<Rightarrow>
            if property SAFE_METHODS method \<noteq> JNum 1 \<and> token \<noteq> JNull then
              case setProp (property request (str ''headers'')) (str ''X-CSRF-Token'') token of
                None \<Rightarrow> Thrown TypeError this
              | Some headers \<Rightarrow>
                  (case setProp request (str ''headers'') headers of
                     None \<Rightarrow> Thrown TypeError this
                   | Some request' \<Rightarrow> done (JBool False) request' this)
            else done (JBool False) request this)"

definition logOut :: "agent \<Rightarrow> callback \<Rightarrow> outcome" where
  "logOut this done =
     (case CAPI this of
        None \<Rightarrow> Thrown TypeError this
      | Some userService \<Rightarrow>
          let sessionHref = getItem (storage this) KEY_SESSION_HREF in
          if sessionHref = JNull then done (JBool False) (JBool True) this
          else
            let (error, response) = deleteSession userService sessionHref;
                that = this\<lparr>trace := trace this @ [DeleteSession sessionHref]\<rparr>
            in done error response (if \<not> truthy error then resetStorage that else that))"

definition logIn :: "agent \<Rightarrow> callback \<Rightarrow> outcome" where
  "logIn this callback =
     (if getItem (storage this) KEY_SESSION_ID \<noteq> JNull
      then logOut this (\<lambda>error result that. ensureAuthentication that callback)
      else ensureAuthentication this callback)"

section \<open>Observing a run\<close>

text \<open>A caller's callback that only records what it is invoked with.\<close>

definition report :: callback where
  "report error result this = Returned (this\<lparr>trace := trace this @ [Resolved error result]\<rparr>)"

text \<open>
  An operation resolves with \<open>e\<close>: whatever callback it is given, all it does in the
  end is invoke that callback once, with \<open>e\<close> as the error.
\<close>

definition resolvesWith :: "(callback \<Rightarrow> outcome) \<Rightarrow> jsval \<Rightarrow> bool" where
  "resolvesWith operation e = (\<exists>r that. \<forall>done. operation done = done e r that)"

text \<open>The four session keys are absent from a storage, or all there.\<close>

definition sessionAbsent :: "StorageAbstraction \<Rightarrow> bool" where
  "sessionAbsent s =
     (getItem s KEY_SESSION_NAME = JNull \<and> getItem s KEY_SESSION_ID = JNull \<and>
      getItem s KEY_SESSION_HREF = JNull \<and> getItem s KEY_CSRF_TOKEN = JNull)"

definition sessionPresent :: "StorageAbstraction \<Rightarrow> bool" where
  "sessionPresent s =
     (getItem s KEY_SESSION_NAME \<noteq> JNull \<and> getItem s KEY_SESSION_ID \<noteq> JNull \<and>
      getItem s KEY_SESSION_HREF \<noteq> JNull \<and> getItem s KEY_CSRF_TOKEN \<noteq> JNull)"

text \<open>
  The answer to a create request carries a session object: reading
  \<open>sessionResponse.document.Session\<close> and then its fields does not throw.
\<close>

definition carriesSession :: "jsval \<Rightarrow> bool" where
  "carriesSession sessionResponse =
     (case sessionOf sessionResponse of None \<Rightarrow> False | Some session \<Rightarrow> \<not> nullish session)"

text \<open>
  The error \<open>ensureAuthentication\<close> hands on when it has to create a session: the one
  \<open>createSession\<close> reports, or \<open>false\<close> when it reports none.
\<close>

definition createError :: "userService \<Rightarrow> agent \<Rightarrow> jsval" where
  "createError us this =
     (let err = fst (createSession us (newSessionCreateStruct us (login this) (password this)))
      in if truthy err then err else JBool False)"

text \<open>
  A method is, case-insensitively, one of GET, HEAD, OPTIONS, TRACE: the specification's
  wording of the safe methods, to be compared with the lookup in \<open>SAFE_METHODS\<close>. Case
  is that of the ASCII letters, as for an HTTP method.
\<close>

definition toLowerUnit :: "codeunit \<Rightarrow> codeunit" where
  "toLowerUnit u = (let n = unat u in if 65 \<le> n \<and> n \<le> 90 then of_nat (n + 32) else u)"

definition equalIgnoringCase :: "jsstring \<Rightarrow> jsstring \<Rightarrow> bool" where
  "equalIgnoringCase s t = (map toLowerUnit s = map toLowerUnit t)"

definition isSafeMethod :: "jsstring \<Rightarrow> bool" where
  "isSafeMethod m =
     (equalIgnoringCase m (str ''GET'') \<or> equalIgnoringCase m (str ''HEAD'') \<or>
      equalIgnoringCase m (str ''OPTIONS'') \<or> equalIgnoringCase m (str ''TRACE''))"

text \<open>
  Dotless i (U+0131) and long s (U+017F) read as the letters i and s, which is what
  \<open>toUpperCase\<close> makes of them.
\<close>

definition plainLetter :: "codeunit \<Rightarrow> codeunit" where
  "plainLetter u = (if u = 305 then 105 else if u = 383 then 115 else u)"

text \<open>
  A string of upper-case ASCII letters without F, and with S in the last place only: the
  shape of the four keys that the proofs below use.
\<close>

fun plainKey :: "jsstring \<Rightarrow> bool" where
  "plainKey [] = True"
| "plainKey (x # xs) =
     (65 \<le> unat x \<and> unat x \<le> 90 \<and> unat x \<noteq> 70 \<and> (unat x = 83 \<longrightarrow> xs = []) \<and> plainKey xs)"

section \<open>Example collaborators\<close>

text \<open>
  A session service that answers every call with success, its create answer carrying
  the session \<open>abc\<close>, and one that answers every call with an error.
\<close>

definition sessionAbc :: jsval where
  "sessionAbc =
     JObj [(str ''_href'', JStr (str ''/sessions/abc'')), (str ''name'', JStr (str ''SESSID'')),
           (str ''identifier'', JStr (str ''abc'')), (str ''csrfToken'', JStr (str ''tok1''))]"

definition createdAbc :: jsval where
  "createdAbc = JObj [(str ''document'', JObj [(str ''Session'', sessionAbc)])]"

definition workingService :: userService where
  "workingService =
     \<lparr>newSessionCreateStruct = (\<lambda>l p. JObj [(str ''login'', l), (str ''password'', p)]),
      createSession = (\<lambda>s. (JBool False, createdAbc)),
      refreshSession = (\<lambda>i. (JBool False, JBool True)),
      deleteSession = (\<lambda>h. (JBool False, JBool True))\<rparr>"

definition faultyService :: userService where
  "faultyService =
     \<lparr>newSessionCreateStruct = (\<lambda>l p. JObj [(str ''login'', l), (str ''password'', p)]),
      createSession = (\<lambda>s. (JStr (str ''create failed''), JBool False)),
      refreshSession = (\<lambda>i. (JStr (str ''refresh failed''), JBool False)),
      deleteSession = (\<lambda>h. (JStr (str ''delete failed''), JBool False))\<rparr>"

text \<open>The storage after the session \<open>abc\<close> was stored, and agents on it.\<close>

definition storedAbc :: StorageAbstraction where
  "storedAbc =
     [KEY_SESSION_NAME \<mapsto> JStr (str ''SESSID''), KEY_SESSION_HREF \<mapsto> JStr (str ''/sessions/abc''),
      KEY_SESSION_ID \<mapsto> JStr (str ''abc''), KEY_CSRF_TOKEN \<mapsto> JStr (str ''tok1'')]"

definition agentOn :: "userService \<Rightarrow> StorageAbstraction \<Rightarrow> agent" where
  "agentOn us st =
     \<lparr>CAPI = Some us, login = JStr (str ''admin''), password = JStr (str ''publish''), storage = st,
      trace = []\<rparr>"

text \<open>An \<open>authInfo\<close> that describes the session \<open>abc\<close>, and one that has credentials too.\<close>

definition sessionAuthInfo :: jsval where
  "sessionAuthInfo =
     JObj [(str ''name'', JStr (str ''SESSID'')), (str ''identifier'', JStr (str ''abc'')),
           (str ''href'', JStr (str ''/sessions/abc'')), (str ''csrfToken'', JStr (str ''tok1''))]"

definition bothAuthInfo :: jsval where
  "bothAuthInfo =
     JObj [(str ''login'', JStr (str ''admin'')), (str ''password'', JStr (str ''publish'')),
           (str ''name'', JStr (str ''SESSID'')), (str ''identifier'', JStr (str ''abc'')),
           (str ''href'', JStr (str ''/sessions/abc'')), (str ''csrfToken'', JStr (str ''tok1''))]"

text \<open>The method "options" written with a dotless i (U+0131).\<close>

definition dotlessOptions :: jsstring where
  "dotlessOptions = str ''opt'' @ [305] @ str ''ons''"

section \<open>Basic facts\<close>

lemma unat_of_char: "unat (of_char c :: codeunit) = of_char c"
proof -
  have "(of_char c :: codeunit) = of_nat (of_char c)"
    by (simp add: of_nat_of_char)
  then have "unat (of_char c :: codeunit) = (of_char c :: nat) mod 2 ^ 16"
    by (simp add: unat_of_nat)
  moreover have "(of_char c :: nat) < 256" by simp
  ultimately show ?thesis by simp
qed

lemma str_eq_iff [simp]: "(str s = str t) = (s = t)"
proof -
  have "inj (of_char :: char \<Rightarrow> codeunit)"
  proof (rule injI)
    fix c d :: char
    assume "(of_char c :: codeunit) = of_char d"
    then have "unat (of_char c :: codeunit) = unat (of_char d :: codeunit)" by simp
    then show "c = d" by (simp add: unat_of_char)
  qed
  then show ?thesis by (simp add: str_def inj_map_eq_map)
qed

lemma str_eq_Nil [simp]: "(str s = []) = (s = [])" "([] = str s) = (s = [])"
  by (auto simp: str_def)

lemma keys_distinct:
  "KEY_SESSION_NAME \<noteq> KEY_SESSION_ID" "KEY_SESSION_NAME \<noteq> KEY_SESSION_HREF"
  "KEY_SESSION_NAME \<noteq> KEY_CSRF_TOKEN" "KEY_SESSION_ID \<noteq> KEY_SESSION_HREF"
  "KEY_SESSION_ID \<noteq> KEY_CSRF_TOKEN" "KEY_SESSION_HREF \<noteq> KEY_CSRF_TOKEN"
  by (simp_all add: KEY_SESSION_NAME_def KEY_SESSION_ID_def KEY_SESSION_HREF_def KEY_CSRF_TOKEN_def)

lemma getItem_removeItem:
  "getItem (removeItem s k) k' = (if k' = k then JNull else getItem s k')"
  by (simp add: getItem_def removeItem_def)

lemma resetStorage_absent: "sessionAbsent (storage (resetStorage this))"
  by (simp add: resetStorage_def sessionAbsent_def getItem_removeItem)

lemma resetStorage_fields:
  "CAPI (resetStorage this) = CAPI this" "trace (resetStorage this) = trace this"
  "login (resetStorage this) = login this" "password (resetStorage this) = password this"
  by (simp_all add: resetStorage_def)

lemma truthy_not_nullish: "truthy v \<Longrightarrow> \<not> nullish v"
  by (cases v) (simp_all add: nullish_def)

lemma truthy_not_null: "truthy v \<Longrightarrow> v \<noteq> JNull"
  by (cases v) simp_all

lemma truthy_property_object: "truthy (property v k) \<Longrightarrow> truthy v"
  by (cases v) simp_all

lemma string_property_not_nullish: "property request k = JStr m \<Longrightarrow> \<not> nullish request"
  by (cases request) (simp_all add: nullish_def)

lemma property_assign:
  "property (JObj (assign ps k v)) k' = (if k' = k then v else property (JObj ps) k')"
  by (induction ps) auto

lemma resolvesWithI:
  "(\<And>done. operation done = done e r that) \<Longrightarrow> resolvesWith operation e"
  by (auto simp: resolvesWith_def)

subsection \<open>The example storage\<close>

lemma storedAbc_items:
  "getItem storedAbc KEY_SESSION_NAME = JStr (str ''SESSID'')"
  "getItem storedAbc KEY_SESSION_HREF = JStr (str ''/sessions/abc'')"
  "getItem storedAbc KEY_SESSION_ID = JStr (str ''abc'')"
  "getItem storedAbc KEY_CSRF_TOKEN = JStr (str ''tok1'')"
  by (simp_all add: storedAbc_def getItem_def keys_distinct keys_distinct [symmetric])

lemma storedAbc_reset: "storage (resetStorage (this\<lparr>storage := storedAbc\<rparr>)) = Map.empty"
  by (simp add: resetStorage_def removeItem_def storedAbc_def keys_distinct fun_eq_iff)

lemma empty_items: "getItem Map.empty k = JNull"
  by (simp add: getItem_def)

lemma agentOn_fields:
  "CAPI (agentOn us st) = Some us" "login (agentOn us st) = JStr (str ''admin'')"
  "password (agentOn us st) = JStr (str ''publish'')" "storage (agentOn us st) = st"
  "trace (agentOn us st) = []"
  by (simp_all add: agentOn_def)

subsection \<open>Upper case and comparison ignoring case\<close>

lemma unat_small: "k < 65536 \<Longrightarrow> unat (of_nat k :: codeunit) = k"
  by (simp add: unat_of_nat)

lemma unit_eq_iff: "(u = v) = (unat u = unat (v :: codeunit))"
  by (simp add: word_unat_eq_iff)

lemma unat_less: "unat (u :: codeunit) < 65536"
  using unsigned_less [of u, where 'a = nat] by simp

lemma unat_shift:
  "k \<le> unat (u :: codeunit) \<Longrightarrow> unat (of_nat (unat u - k) :: codeunit) = unat u - k"
  using unat_less [of u] by (intro unat_small) simp

lemma lower_cases:
  "toLowerUnit u = (if 65 \<le> unat u \<and> unat u \<le> 90 then of_nat (unat u + 32) else u)"
  by (simp add: toLowerUnit_def Let_def)

lemma unat_lower:
  "unat (toLowerUnit u) = (if 65 \<le> unat u \<and> unat u \<le> 90 then unat u + 32 else unat u)"
proof (cases "65 \<le> unat u \<and> unat u \<le> 90")
  case True
  then have "unat (of_nat (unat u + 32) :: codeunit) = unat u + 32"
    by (intro unat_small) simp
  with True show ?thesis by (simp add: lower_cases)
next
  case False
  then show ?thesis by (auto simp: lower_cases)
qed

lemma plain_other: "unat u \<noteq> 305 \<Longrightarrow> unat u \<noteq> 383 \<Longrightarrow> plainLetter u = u"
  by (auto simp: plainLetter_def unit_eq_iff)

text \<open>A unit that is, ignoring case, an upper-case ASCII letter has that letter as its upper case.\<close>

lemma plain_letter_upper:
  assumes "toLowerUnit (plainLetter u) = toLowerUnit x"
    and "65 \<le> unat x" and "unat x \<le> 90"
  shows "toUpperUnit u = [x]"
proof -
  have low: "unat (toLowerUnit (plainLetter u)) = unat x + 32"
    using assms by (simp add: unat_lower)
  consider "unat u = 305" | "unat u = 383" | "unat u \<noteq> 305" "unat u \<noteq> 383"
    by blast
  then show ?thesis
  proof cases
    case 1
    then have "plainLetter u = 105" by (simp add: plainLetter_def unit_eq_iff)
    with low have "unat x = 73" by (simp add: unat_lower)
    then have "x = 73" by (simp add: unit_eq_iff)
    with 1 show ?thesis by (simp add: toUpperUnit_def latinAUpper_def)
  next
    case 2
    then have "plainLetter u = 115" by (simp add: plainLetter_def unit_eq_iff)
    with low have "unat x = 83" by (simp add: unat_lower)
    then have "x = 83" by (simp add: unit_eq_iff)
    with 2 show ?thesis by (simp add: toUpperUnit_def latinAUpper_def)
  next
    case 3
    then have "plainLetter u = u" by (rule plain_other)
    with low have eq:
      "(if 65 \<le> unat u \<and> unat u \<le> 90 then unat u + 32 else unat u) = unat x + 32"
      by (simp add: unat_lower)
    show ?thesis
    proof (cases "65 \<le> unat u \<and> unat u \<le> 90")
      case True
      with eq have "unat u = unat x" by simp
      then have "u = x" by (simp add: unit_eq_iff)
      with True show ?thesis by (simp add: toUpperUnit_def asciiUpper_def)
    next
      case False
      with eq have n: "unat u = unat x + 32" by simp
      with assms(2,3) have "97 \<le> unat u \<and> unat u \<le> 122" by simp
      moreover have "of_nat (unat u - 32) = x"
        using n by (simp add: unit_eq_iff)
      ultimately show ?thesis by (simp add: toUpperUnit_def asciiUpper_def Let_def)
    qed
  qed
qed

lemma latin1_head:
  assumes "128 \<le> unat u" and "unat u \<noteq> 223"
  shows "128 \<le> unat (hd (latin1Upper (unat u) u))"
proof -
  have "unat (of_nat (unat u - 32) :: codeunit) = unat u - 32"
    using assms(1) by (intro unat_shift) simp
  then show ?thesis
    using assms by (auto simp: latin1Upper_def simp del: of_nat_diff)
qed

lemma latinA_head:
  assumes "256 \<le> unat u" and "unat u \<noteq> 305" and "unat u \<noteq> 383"
  shows "128 \<le> unat (hd (latinAUpper (unat u) u))"
proof -
  have "unat (of_nat (unat u - 1) :: codeunit) = unat u - 1"
    using assms(1) by (intro unat_shift) simp
  then show ?thesis
    using assms by (auto simp: latinAUpper_def simp del: of_nat_diff)
qed

lemma ligature_head:
  "ligatureUpper n = x # rest \<Longrightarrow> x = 70 \<or> (x = 83 \<and> rest = [84])"
  by (auto simp: ligatureUpper_def split: if_splits)

text \<open>
  Where the upper case of a unit starts with an ASCII letter that may stand in a key,
  it is that letter alone, and the unit is the letter ignoring case, a dotless i or a
  long s.
\<close>

lemma upper_head:
  assumes out: "toUpperUnit u = x # rest"
    and letter: "65 \<le> unat x" "unat x \<le> 90" "unat x \<noteq> 70"
    and last: "unat x = 83 \<longrightarrow> rest = []"
  shows "rest = [] \<and> toLowerUnit (plainLetter u) = toLowerUnit x"
proof -
  consider (ascii) "unat u < 128"
    | (latin1) "128 \<le> unat u" "unat u < 256"
    | (latinA) "256 \<le> unat u" "unat u < 384"
    | (ligature) "64256 \<le> unat u" "unat u \<le> 64262"
    | (other) "384 \<le> unat u" "\<not> (64256 \<le> unat u \<and> unat u \<le> 64262)"
    by linarith
  then show ?thesis
  proof cases
    case ascii
    then have plain: "plainLetter u = u" by (intro plain_other) simp_all
    show ?thesis
    proof (cases "97 \<le> unat u \<and> unat u \<le> 122")
      case True
      with ascii out have x: "x = of_nat (unat u - 32)" and "rest = []"
        by (simp_all add: toUpperUnit_def asciiUpper_def del: of_nat_diff)
      have ux: "unat x = unat u - 32"
        unfolding x using True by (intro unat_shift) simp
      have "toLowerUnit x = of_nat (unat x + 32)"
        using letter by (simp add: lower_cases)
      moreover have "unat x + 32 = unat u"
        using ux True by arith
      ultimately have "toLowerUnit x = u"
        by simp
      moreover have "toLowerUnit u = u"
        using True by (simp add: lower_cases)
      ultimately show ?thesis
        using \<open>rest = []\<close> plain by simp
    next
      case False
      with ascii out have "x = u" "rest = []"
        by (simp_all add: toUpperUnit_def asciiUpper_def)
      with plain show ?thesis by simp
    qed
  next
    case latin1
    show ?thesis
    proof (cases "unat u = 223")
      case True
      with out have "x = 83" "rest = [83]"
        by (simp_all add: toUpperUnit_def latin1Upper_def)
      with last show ?thesis by simp
    next
      case False
      with latin1 have "128 \<le> unat (hd (latin1Upper (unat u) u))"
        by (intro latin1_head)
      with latin1 out letter show ?thesis
        by (simp add: toUpperUnit_def)
    qed
  next
    case latinA
    consider "unat u = 305" | "unat u = 383" | "unat u \<noteq> 305" "unat u \<noteq> 383"
      by blast
    then show ?thesis
    proof cases
      case 1
      with out have "x = 73" "rest = []"
        by (simp_all add: toUpperUnit_def latinAUpper_def)
      moreover have "plainLetter u = 105"
        using 1 by (simp add: plainLetter_def unit_eq_iff)
      ultimately show ?thesis by (simp add: lower_cases)
    next
      case 2
      with out have "x = 83" "rest = []"
        by (simp_all add: toUpperUnit_def latinAUpper_def)
      moreover have "plainLetter u = 115"
        using 2 by (simp add: plainLetter_def unit_eq_iff)
      ultimately show ?thesis by (simp add: lower_cases)
    next
      case 3
      with latinA have "128 \<le> unat (hd (latinAUpper (unat u) u))"
        by (intro latinA_head)
      with latinA out letter show ?thesis
        by (simp add: toUpperUnit_def)
    qed
  next
    case ligature
    with out have "ligatureUpper (unat u) = x # rest"
      by (simp add: toUpperUnit_def)
    then have "x = 70 \<or> (x = 83 \<and> rest = [84])"
      by (rule ligature_head)
    with letter last show ?thesis by auto
  next
    case other
    with out have "x = u"
      by (simp add: toUpperUnit_def)
    with other letter show ?thesis by simp
  qed
qed

lemma upper_nonempty: "toUpperUnit u \<noteq> []"
  by (simp add: toUpperUnit_def asciiUpper_def latin1Upper_def latinAUpper_def
      ligatureUpper_def Let_def)

lemma upper_key_forward:
  "plainKey k \<Longrightarrow> toUpperString m = k \<Longrightarrow>
     map toLowerUnit (map plainLetter m) = map toLowerUnit k"
proof (induction m arbitrary: k)
  case Nil
  then show ?case by (simp add: toUpperString_def)
next
  case (Cons u m)
  obtain x rest where out: "toUpperUnit u = x # rest"
    using upper_nonempty [of u] by (cases "toUpperUnit u") simp_all
  with Cons.prems(2) obtain k' where k: "k = x # k'" and k': "rest @ toUpperString m = k'"
    by (auto simp: toUpperString_def)
  from Cons.prems(1) k have letter: "65 \<le> unat x" "unat x \<le> 90" "unat x \<noteq> 70"
    and last: "unat x = 83 \<longrightarrow> k' = []" and key: "plainKey k'"
    by simp_all
  from last k' have "unat x = 83 \<longrightarrow> rest = []" by blast
  from upper_head [OF out letter this]
  have "rest = []" and low: "toLowerUnit (plainLetter u) = toLowerUnit x"
    by blast+
  note low
  moreover from \<open>rest = []\<close> k' key
  have "map toLowerUnit (map plainLetter m) = map toLowerUnit k'"
    by (intro Cons.IH) simp_all
  ultimately show ?case using k by simp
qed

lemma upper_key_backward:
  "plainKey k \<Longrightarrow> map toLowerUnit (map plainLetter m) = map toLowerUnit k \<Longrightarrow>
     toUpperString m = k"
proof (induction m arbitrary: k)
  case Nil
  then show ?case by (simp add: toUpperString_def)
next
  case (Cons u m)
  then obtain x k' where k: "k = x # k'"
    by (cases k) simp_all
  with Cons.prems have "toLowerUnit (plainLetter u) = toLowerUnit x"
    and "map toLowerUnit (map plainLetter m) = map toLowerUnit k'"
    and "65 \<le> unat x" "unat x \<le> 90" "plainKey k'"
    by simp_all
  then have "toUpperUnit u = [x]" and "toUpperString m = k'"
    by (simp_all add: plain_letter_upper Cons.IH)
  with k show ?case by (simp add: toUpperString_def)
qed

lemma upper_key_iff:
  "plainKey k \<Longrightarrow> (toUpperString m = k) = equalIgnoringCase (map plainLetter m) k"
  unfolding equalIgnoringCase_def
  using upper_key_forward [of k m] upper_key_backward [of k m] by blast

lemma keys_plain:
  "plainKey (str ''GET'')" "plainKey (str ''HEAD'')" "plainKey (str ''OPTIONS'')"
  "plainKey (str ''TRACE'')"
  by (simp_all add: str_def)

text \<open>
  The lookup \<open>SAFE_METHODS[request.method.toUpperCase()] === 1\<close> succeeds exactly on the
  methods that are, ignoring case and reading dotless i as i and long s as s, GET, HEAD,
  OPTIONS or TRACE.
\<close>

lemma safe_lookup:
  "(property SAFE_METHODS (toUpperString m) = JNum 1) = isSafeMethod (map plainLetter m)"
proof -
  have "(property SAFE_METHODS k = JNum 1) =
        (k = str ''GET'' \<or> k = str ''HEAD'' \<or> k = str ''OPTIONS'' \<or> k = str ''TRACE'')" for k
    by (simp add: SAFE_METHODS_def)
  then show ?thesis
    by (simp add: isSafeMethod_def upper_key_iff keys_plain)
qed

text \<open>A method that is safe ignoring case has neither a dotless i nor a long s.\<close>

lemma ignoring_case_plain:
  "plainKey k \<Longrightarrow> map toLowerUnit m = map toLowerUnit k \<Longrightarrow> map plainLetter m = m"
proof (induction m arbitrary: k)
  case Nil
  then show ?case by simp
next
  case (Cons u m)
  then obtain x k' where k: "k = x # k'"
    by (cases k) simp_all
  with Cons.prems have low: "toLowerUnit u = toLowerUnit x"
    and rest: "map toLowerUnit m = map toLowerUnit k'"
    and letter: "65 \<le> unat x" "unat x \<le> 90" and key: "plainKey k'"
    by simp_all
  from low letter have "unat (toLowerUnit u) = unat x + 32"
    by (simp add: unat_lower)
  with letter have "unat u \<noteq> 305" "unat u \<noteq> 383"
    by (auto simp: unat_lower split: if_splits)
  then have "plainLetter u = u" by (rule plain_other)
  moreover from key rest have "map plainLetter m = m" by (rule Cons.IH)
  ultimately show ?case by simp
qed

lemma safe_method_plain:
  assumes "isSafeMethod m"
  shows "isSafeMethod (map plainLetter m)"
proof -
  from assms obtain k where "plainKey k" and "map toLowerUnit m = map toLowerUnit k"
    unfolding isSafeMethod_def equalIgnoringCase_def using keys_plain by blast
  then have "map plainLetter m = m"
    by (rule ignoring_case_plain)
  with assms show ?thesis by simp
qed

lemma safe_method_lookup: "isSafeMethod m \<Longrightarrow> property SAFE_METHODS (toUpperString m) = JNum 1"
  by (simp add: safe_lookup safe_method_plain)

section \<open>Construction\<close>

text \<open>
  C1, as the code has it. An \<open>authInfo\<close> that is supplied (truthy) and has neither a
  truthy \<open>login\<close> and \<open>password\<close> nor truthy \<open>csrfToken\<close>, \<open>identifier\<close>, \<open>name\<close> and
  \<open>href\<close> makes the constructor throw the CAPIError "Invalid authInfo parameter", before
  anything is written to the storage.
\<close>

theorem SessionAuthAgent_invalid_throws:
  assumes "truthy authInfo"
    and "\<not> hasCredentials authInfo"
    and "\<not> hasSessionInfo authInfo"
  shows "SessionAuthAgent authInfo st =
           Thrown (CAPIError ''Invalid authInfo parameter'') (newAgent st)"
  using assms by (simp add: SessionAuthAgent_def)

theorem SessionAuthAgent_invalid_throws_witness:
  "SessionAuthAgent (JObj [(str ''login'', JStr (str ''admin''))]) Map.empty =
     Thrown (CAPIError ''Invalid authInfo parameter'') (newAgent Map.empty)"
  by (rule SessionAuthAgent_invalid_throws)
     (simp_all add: hasCredentials_def hasSessionInfo_def)

text \<open>
  C1 as stated fails where no \<open>authInfo\<close> is given: \<open>undefined\<close> is neither a credential
  pair nor a session descriptor, and the constructor returns an agent with the empty
  login and password.
\<close>

theorem SessionAuthAgent_no_authInfo_returns:
  "\<not> hasCredentials JUndefined \<and> \<not> hasSessionInfo JUndefined \<and>
   SessionAuthAgent JUndefined Map.empty =
     Returned \<lparr>CAPI = None, login = JStr [], password = JStr [], storage = Map.empty, trace = []\<rparr>"
  by (simp add: SessionAuthAgent_def newAgent_def hasCredentials_def hasSessionInfo_def)

text \<open>
  C10, as the code has it. An \<open>authInfo\<close> with truthy \<open>csrfToken\<close>, \<open>identifier\<close>, \<open>name\<close>
  and \<open>href\<close>, and without a truthy \<open>login\<close> and \<open>password\<close>, makes the constructor write
  the four fields to the storage; all four keys are then present, and
  \<open>ensureAuthentication\<close>, whatever session service is set afterwards, invokes its
  callback with success and the agent untouched: no call reaches the service.
\<close>

theorem SessionAuthAgent_stores_session:
  assumes "hasSessionInfo authInfo"
    and "\<not> hasCredentials authInfo"
  shows "let this = (newAgent st)\<lparr>storage := st
                       (KEY_SESSION_NAME \<mapsto> property authInfo (str ''name''),
                        KEY_SESSION_HREF \<mapsto> property authInfo (str ''href''),
                        KEY_SESSION_ID \<mapsto> property authInfo (str ''identifier''),
                        KEY_CSRF_TOKEN \<mapsto> property authInfo (str ''csrfToken''))\<rparr>
         in SessionAuthAgent authInfo st = Returned this \<and>
            sessionPresent (storage this) \<and>
            ensureAuthentication (setCAPI this capi) done =
              done (JBool False) (JBool True) (setCAPI this capi)"
proof -
  have supplied: "truthy authInfo"
    using assms(1) truthy_property_object [of authInfo "(str ''name'')"]
    by (simp add: hasSessionInfo_def)
  have fields: "property authInfo (str ''name'') \<noteq> JNull" "property authInfo (str ''href'') \<noteq> JNull"
    "property authInfo (str ''identifier'') \<noteq> JNull" "property authInfo (str ''csrfToken'') \<noteq> JNull"
    using assms(1) by (auto simp: hasSessionInfo_def dest: truthy_not_null)
  have "SessionAuthAgent authInfo st = storeSessionInfo (newAgent st) authInfo"
    using supplied assms by (simp add: SessionAuthAgent_def)
  moreover have "\<not> nullish authInfo"
    using supplied by (rule truthy_not_nullish)
  ultimately show ?thesis
    using fields
    by (simp add: storeSessionInfo_def setItem_def Let_def sessionPresent_def getItem_def
        keys_distinct keys_distinct [symmetric] ensureAuthentication_def setCAPI_def
        newAgent_def)
qed

theorem SessionAuthAgent_stores_session_witness:
  "SessionAuthAgent sessionAuthInfo Map.empty =
     Returned ((newAgent Map.empty)\<lparr>storage := storedAbc\<rparr>) \<and>
   sessionPresent storedAbc \<and>
   ensureAuthentication
       (setCAPI ((newAgent Map.empty)\<lparr>storage := storedAbc\<rparr>) (Some faultyService)) report =
     report (JBool False) (JBool True)
       (setCAPI ((newAgent Map.empty)\<lparr>storage := storedAbc\<rparr>) (Some faultyService))"
proof -
  have "hasSessionInfo sessionAuthInfo" "\<not> hasCredentials sessionAuthInfo"
    by (simp_all add: hasSessionInfo_def hasCredentials_def sessionAuthInfo_def)
  from SessionAuthAgent_stores_session [OF this, of Map.empty "Some faultyService" report]
  show ?thesis
    by (simp add: Let_def sessionAuthInfo_def storedAbc_def newAgent_def)
qed

text \<open>
  C10 as stated fails for an \<open>authInfo\<close> that has a complete session descriptor and a
  login and password as well: the credentials are tested first, the descriptor is not
  stored, and the next \<open>ensureAuthentication\<close> asks the service for a new session.
\<close>

theorem SessionAuthAgent_credentials_take_precedence:
  "hasSessionInfo bothAuthInfo \<and>
   SessionAuthAgent bothAuthInfo Map.empty =
     Returned \<lparr>CAPI = None, login = JStr (str ''admin''), password = JStr (str ''publish''),
               storage = Map.empty, trace = []\<rparr> \<and>
   sessionAbsent Map.empty \<and>
   ensureAuthentication
       (setCAPI \<lparr>CAPI = None, login = JStr (str ''admin''), password = JStr (str ''publish''),
                 storage = Map.empty, trace = []\<rparr> (Some workingService)) report =
     Returned \<lparr>CAPI = Some workingService, login = JStr (str ''admin''), password = JStr (str ''publish''),
       storage = storedAbc,
       trace = [NewSessionCreateStruct (JStr (str ''admin'')) (JStr (str ''publish'')),
                CreateSession (JObj [(str ''login'', JStr (str ''admin'')), (str ''password'', JStr (str ''publish''))]),
                Resolved (JBool False) createdAbc]\<rparr>"
  by (simp add: hasSessionInfo_def hasCredentials_def bothAuthInfo_def SessionAuthAgent_def
      setCredentials_def nullish_def newAgent_def sessionAbsent_def getItem_def
      ensureAuthentication_def workingService_def createdAbc_def sessionAbc_def sessionOf_def
      storeSessionInfo_def setItem_def report_def storedAbc_def setCAPI_def)

section \<open>ensureAuthentication\<close>



text \<open>
  C3. For an agent whose storage already holds a session identifier,
  \<open>ensureAuthentication\<close> invokes its callback at once with \<open>false\<close> and \<open>true\<close>, on the
  agent as it was: no call to the session service is recorded and the storage is
  unchanged.
\<close>

theorem ensureAuthentication_reuses_session:
  assumes "getItem (storage this) KEY_SESSION_ID \<noteq> JNull"
  shows "ensureAuthentication this done = done (JBool False) (JBool True) this"
  using assms by (simp add: ensureAuthentication_def)

theorem ensureAuthentication_reuses_session_witness:
  "ensureAuthentication (agentOn faultyService storedAbc) report =
     Returned \<lparr>CAPI = Some faultyService, login = JStr (str ''admin''), password = JStr (str ''publish''),
       storage = storedAbc, trace = [Resolved (JBool False) (JBool True)]\<rparr>"
proof -
  have "getItem (storage (agentOn faultyService storedAbc)) KEY_SESSION_ID \<noteq> JNull"
    by (simp add: agentOn_fields storedAbc_items)
  from ensureAuthentication_reuses_session [OF this, of report]
  show ?thesis by (simp add: agentOn_def report_def)
qed

section \<open>isLoggedIn\<close>

text \<open>
  C4. For an agent with a stored session identifier (and its session service set), when
  \<open>refreshSession\<close> reports an error, \<open>isLoggedIn\<close> removes the four keys and then invokes
  its callback with that same error and result: in the state the callback receives, all
  four session keys are absent.
\<close>

theorem isLoggedIn_failed_refresh_clears:
  assumes "CAPI this = Some us"
    and "getItem (storage this) KEY_SESSION_ID \<noteq> JNull"
    and "refreshSession us (getItem (storage this) KEY_SESSION_ID) = (err, res)"
    and "truthy err"
  shows "isLoggedIn this callback =
           callback err res
             (resetStorage
               (this\<lparr>trace := trace this @
                  [RefreshSession (getItem (storage this) KEY_SESSION_ID)]\<rparr>)) \<and>
         sessionAbsent (storage (resetStorage
               (this\<lparr>trace := trace this @
                  [RefreshSession (getItem (storage this) KEY_SESSION_ID)]\<rparr>)))"
  using assms by (simp add: isLoggedIn_def resetStorage_absent)

theorem isLoggedIn_failed_refresh_clears_witness:
  "isLoggedIn (agentOn faultyService storedAbc) report =
     Returned \<lparr>CAPI = Some faultyService, login = JStr (str ''admin''), password = JStr (str ''publish''),
       storage = Map.empty,
       trace = [RefreshSession (JStr (str ''abc'')), Resolved (JStr (str ''refresh failed'')) (JBool False)]\<rparr> \<and>
   sessionAbsent Map.empty"
proof -
  have capi: "CAPI (agentOn faultyService storedAbc) = Some faultyService"
    by (simp add: agentOn_fields)
  have stored: "getItem (storage (agentOn faultyService storedAbc)) KEY_SESSION_ID \<noteq> JNull"
    by (simp add: agentOn_fields storedAbc_items)
  have refused:
    "refreshSession faultyService (getItem (storage (agentOn faultyService storedAbc)) KEY_SESSION_ID) =
     (JStr (str ''refresh failed''), JBool False)"
    by (simp add: faultyService_def)
  have failed: "truthy (JStr (str ''refresh failed''))"
    by simp
  from isLoggedIn_failed_refresh_clears [OF capi stored refused failed, of report]
       storedAbc_reset [of "agentOn faultyService storedAbc"]
  show ?thesis
    by (simp add: agentOn_def report_def storedAbc_items resetStorage_def)
qed

section \<open>logOut\<close>

text \<open>
  C5. For an agent with a session href stored (and its session service set), \<open>logOut\<close>
  asks the service to delete the session at that href. When the service reports no
  error, the four keys are removed before the callback runs, so all four are absent;
  when it reports an error, the storage is the one before the call. Either way the
  callback is invoked with the service's own error and response.
\<close>

theorem logOut_clears_only_on_success:
  assumes "CAPI this = Some us"
    and "getItem (storage this) KEY_SESSION_HREF \<noteq> JNull"
    and "deleteSession us (getItem (storage this) KEY_SESSION_HREF) = (err, resp)"
  shows "let that = this\<lparr>trace := trace this @
                       [DeleteSession (getItem (storage this) KEY_SESSION_HREF)]\<rparr>
         in logOut this done =
              (if truthy err then done err resp that else done err resp (resetStorage that)) \<and>
            storage that = storage this \<and>
            sessionAbsent (storage (resetStorage that))"
  using assms by (simp add: logOut_def resetStorage_absent Let_def)

theorem logOut_clears_only_on_success_witness:
  "logOut (agentOn workingService storedAbc) report =
     Returned \<lparr>CAPI = Some workingService, login = JStr (str ''admin''), password = JStr (str ''publish''),
       storage = Map.empty,
       trace = [DeleteSession (JStr (str ''/sessions/abc'')), Resolved (JBool False) (JBool True)]\<rparr> \<and>
   logOut (agentOn faultyService storedAbc) report =
     Returned \<lparr>CAPI = Some faultyService, login = JStr (str ''admin''), password = JStr (str ''publish''),
       storage = storedAbc,
       trace = [DeleteSession (JStr (str ''/sessions/abc'')),
                Resolved (JStr (str ''delete failed'')) (JBool False)]\<rparr>"
proof -
  have capi: "CAPI (agentOn us storedAbc) = Some us" for us
    by (simp add: agentOn_fields)
  have stored: "getItem (storage (agentOn us storedAbc)) KEY_SESSION_HREF \<noteq> JNull" for us
    by (simp add: agentOn_fields storedAbc_items)
  have deleted:
    "deleteSession workingService (getItem (storage (agentOn workingService storedAbc)) KEY_SESSION_HREF) =
     (JBool False, JBool True)"
    by (simp add: workingService_def)
  have refused:
    "deleteSession faultyService (getItem (storage (agentOn faultyService storedAbc)) KEY_SESSION_HREF) =
     (JStr (str ''delete failed''), JBool False)"
    by (simp add: faultyService_def)
  from logOut_clears_only_on_success [OF capi stored deleted, of report]
       logOut_clears_only_on_success [OF capi stored refused, of report]
       storedAbc_reset [of "agentOn workingService storedAbc"]
  show ?thesis
    by (simp add: agentOn_def report_def storedAbc_items resetStorage_def Let_def)
qed

text \<open>
  C6, as the code has it. For an agent whose session service is set and with no session
  href stored, \<open>logOut\<close> invokes its callback with \<open>false\<close> and \<open>true\<close> on the agent as it
  was: no delete request is recorded and the storage is unchanged.
\<close>

theorem logOut_without_session:
  assumes "CAPI this = Some us"
    and "getItem (storage this) KEY_SESSION_HREF = JNull"
  shows "logOut this done = done (JBool False) (JBool True) this"
  using assms by (simp add: logOut_def)

theorem logOut_without_session_witness:
  "logOut (agentOn faultyService Map.empty) report =
     Returned \<lparr>CAPI = Some faultyService, login = JStr (str ''admin''), password = JStr (str ''publish''),
       storage = Map.empty, trace = [Resolved (JBool False) (JBool True)]\<rparr>"
proof -
  have "CAPI (agentOn faultyService Map.empty) = Some faultyService"
    and "getItem (storage (agentOn faultyService Map.empty)) KEY_SESSION_HREF = JNull"
    by (simp_all add: agentOn_fields empty_items)
  from logOut_without_session [OF this, of report]
  show ?thesis by (simp add: agentOn_def report_def)
qed

text \<open>
  C6 as stated fails for an agent whose session service was never set: \<open>logOut\<close> reads
  \<open>this._CAPI.getUserService()\<close> before it looks at the storage, so on an agent fresh
  from the constructor it throws a TypeError and the callback is not invoked.
\<close>

theorem logOut_without_service_throws:
  "SessionAuthAgent
     (JObj [(str ''login'', JStr (str ''admin'')), (str ''password'', JStr (str ''publish''))])
     Map.empty =
     Returned \<lparr>CAPI = None, login = JStr (str ''admin''), password = JStr (str ''publish''),
               storage = Map.empty, trace = []\<rparr> \<and>
   getItem Map.empty KEY_SESSION_HREF = JNull \<and>
   logOut \<lparr>CAPI = None, login = JStr (str ''admin''), password = JStr (str ''publish''),
           storage = Map.empty, trace = []\<rparr> report =
     Thrown TypeError
       \<lparr>CAPI = None, login = JStr (str ''admin''), password = JStr (str ''publish''),
        storage = Map.empty, trace = []\<rparr>"
  by (simp add: SessionAuthAgent_def hasCredentials_def setCredentials_def nullish_def
      newAgent_def getItem_def logOut_def)

section \<open>authenticateRequest\<close>

text \<open>
  C7. For a request whose method is, ignoring case, GET, HEAD, OPTIONS or TRACE,
  \<open>authenticateRequest\<close> invokes its callback with \<open>false\<close> and the request as it was,
  whatever the storage holds under the token key.
\<close>

theorem authenticateRequest_safe_method:
  assumes "property request (str ''method'') = JStr m"
    and "isSafeMethod m"
  shows "authenticateRequest this request done = done (JBool False) request this"
  using assms string_property_not_nullish [of request "str ''method''" m]
  by (simp add: authenticateRequest_def safe_method_lookup)

theorem authenticateRequest_safe_method_witness:
  "authenticateRequest (agentOn workingService storedAbc)
     (JObj [(str ''method'', JStr (str ''Get'')), (str ''headers'', JObj [])]) report =
   Returned \<lparr>CAPI = Some workingService, login = JStr (str ''admin''), password = JStr (str ''publish''),
     storage = storedAbc,
     trace = [Resolved (JBool False)
                (JObj [(str ''method'', JStr (str ''Get'')), (str ''headers'', JObj [])])]\<rparr>"
proof -
  have "property (JObj [(str ''method'', JStr (str ''Get'')), (str ''headers'', JObj [])]) (str ''method'') = JStr (str ''Get'')"
    by simp
  moreover have "isSafeMethod (str ''Get'')"
    by (simp add: isSafeMethod_def equalIgnoringCase_def str_def toLowerUnit_def)
  ultimately show ?thesis
    using authenticateRequest_safe_method
            [of "JObj [(str ''method'', JStr (str ''Get'')), (str ''headers'', JObj [])]" "(str ''Get'')"
                "agentOn workingService storedAbc" report]
    by (simp add: agentOn_def report_def)
qed

text \<open>
  C8, as the code has it. Take a request object whose method is a string that is not a
  safe method, ignoring case and reading dotless i as i and long s as s (as
  \<open>toUpperCase\<close> does). With no token stored, \<open>authenticateRequest\<close> invokes its
  callback with \<open>false\<close> and the request as it was. With a token stored and an object
  as the request's headers, it writes the token to the headers under \<open>X-CSRF-Token\<close>,
  every other header left as it was, and invokes its callback with \<open>false\<close> and the
  request.
\<close>

theorem authenticateRequest_unsafe_method:
  assumes "request = JObj ps"
    and "property request (str ''method'') = JStr m"
    and "\<not> isSafeMethod (map plainLetter m)"
  shows "let token = getItem (storage this) KEY_CSRF_TOKEN;
             headers = JObj (assign hs (str ''X-CSRF-Token'') token)
         in (token = JNull \<longrightarrow>
               authenticateRequest this request done = done (JBool False) request this) \<and>
            (token \<noteq> JNull \<and> property request (str ''headers'') = JObj hs \<longrightarrow>
               authenticateRequest this request done =
                 done (JBool False) (JObj (assign ps (str ''headers'') headers)) this \<and>
               property headers (str ''X-CSRF-Token'') = token \<and>
               (\<forall>k. k \<noteq> str ''X-CSRF-Token'' \<longrightarrow> property headers k = property (JObj hs) k))"
proof -
  have "property SAFE_METHODS (toUpperString m) \<noteq> JNum 1"
    using assms(3) by (simp add: safe_lookup)
  with assms(1,2) show ?thesis
    by (simp add: authenticateRequest_def nullish_def Let_def property_assign
        del: property.simps)
qed

theorem authenticateRequest_unsafe_method_witness:
  "authenticateRequest (agentOn workingService storedAbc)
     (JObj [(str ''method'', JStr (str ''POST'')), (str ''headers'', JObj [])]) report =
   Returned \<lparr>CAPI = Some workingService, login = JStr (str ''admin''),
     password = JStr (str ''publish''), storage = storedAbc,
     trace = [Resolved (JBool False)
                (JObj [(str ''method'', JStr (str ''POST'')),
                       (str ''headers'', JObj [(str ''X-CSRF-Token'', JStr (str ''tok1''))])])]\<rparr> \<and>
   authenticateRequest (agentOn workingService Map.empty)
     (JObj [(str ''method'', JStr (str ''POST''))]) report =
   Returned \<lparr>CAPI = Some workingService, login = JStr (str ''admin''),
     password = JStr (str ''publish''), storage = Map.empty,
     trace = [Resolved (JBool False) (JObj [(str ''method'', JStr (str ''POST''))])]\<rparr>"
proof -
  have unsafe: "\<not> isSafeMethod (map plainLetter (str ''POST''))"
    by (simp add: isSafeMethod_def equalIgnoringCase_def str_def toLowerUnit_def
        plainLetter_def)
  have whole: "property (JObj [(str ''method'', JStr (str ''POST'')), (str ''headers'', JObj [])])
                 (str ''method'') = JStr (str ''POST'')"
    and bare: "property (JObj [(str ''method'', JStr (str ''POST''))]) (str ''method'') =
                 JStr (str ''POST'')"
    by simp_all
  from authenticateRequest_unsafe_method
         [OF refl whole unsafe, of "agentOn workingService storedAbc" "[]" report]
       authenticateRequest_unsafe_method
         [OF refl bare unsafe, of "agentOn workingService Map.empty" "[]" report]
  show ?thesis
    by (simp add: agentOn_def report_def storedAbc_items empty_items Let_def)
qed

text \<open>
  C8 as stated fails twice with a token stored. A POST request without headers makes the
  write to \<open>request.headers\<close> throw a TypeError, and the callback is not invoked. And the
  method "options" written with a dotless i is not a safe method ignoring case, yet its
  upper case is OPTIONS, so the token is withheld.
\<close>

theorem authenticateRequest_fails_or_withholds:
  "\<not> isSafeMethod (str ''POST'') \<and>
   authenticateRequest (agentOn workingService storedAbc)
     (JObj [(str ''method'', JStr (str ''POST''))]) report =
   Thrown TypeError (agentOn workingService storedAbc) \<and>
   \<not> isSafeMethod dotlessOptions \<and>
   authenticateRequest (agentOn workingService storedAbc)
     (JObj [(str ''method'', JStr dotlessOptions), (str ''headers'', JObj [])]) report =
   Returned \<lparr>CAPI = Some workingService, login = JStr (str ''admin''),
     password = JStr (str ''publish''), storage = storedAbc,
     trace = [Resolved (JBool False)
                (JObj [(str ''method'', JStr dotlessOptions), (str ''headers'', JObj [])])]\<rparr>"
proof -
  have post: "\<not> isSafeMethod (str ''POST'')"
    by (simp add: isSafeMethod_def equalIgnoringCase_def str_def toLowerUnit_def)
  have "\<not> isSafeMethod (map plainLetter (str ''POST''))"
    by (simp add: isSafeMethod_def equalIgnoringCase_def str_def toLowerUnit_def
        plainLetter_def)
  then have lookup: "property SAFE_METHODS (toUpperString (str ''POST'')) \<noteq> JNum 1"
    by (simp add: safe_lookup)
  have dotless: "\<not> isSafeMethod dotlessOptions"
    by (simp add: isSafeMethod_def equalIgnoringCase_def dotlessOptions_def str_def
        toLowerUnit_def)
  have "isSafeMethod (map plainLetter dotlessOptions)"
    by (simp add: isSafeMethod_def equalIgnoringCase_def dotlessOptions_def str_def
        toLowerUnit_def plainLetter_def)
  then have withheld: "property SAFE_METHODS (toUpperString dotlessOptions) = JNum 1"
    by (simp add: safe_lookup)
  from post lookup dotless withheld show ?thesis
    by (simp add: authenticateRequest_def nullish_def agentOn_def storedAbc_items report_def)
qed

section \<open>Every operation resolves its callback once\<close>

lemma ensureAuthentication_resolves:
  assumes capi: "CAPI this = Some us"
    and answers: "\<forall>st. truthy (fst (createSession us st)) \<or> carriesSession (snd (createSession us st))"
  shows "resolvesWith (ensureAuthentication this)
           (if getItem (storage this) KEY_SESSION_ID \<noteq> JNull then JBool False
            else createError us this)"
proof (cases "getItem (storage this) KEY_SESSION_ID = JNull")
  case False
  then show ?thesis
    by (intro resolvesWithI [where r = "JBool True" and that = this])
       (simp add: ensureAuthentication_def)
next
  case absent: True
  obtain err resp where
    created: "createSession us (newSessionCreateStruct us (login this) (password this)) = (err, resp)"
    by (cases "createSession us (newSessionCreateStruct us (login this) (password this))")
  show ?thesis
  proof (cases "truthy err")
    case True
    with absent capi created show ?thesis
      by (intro resolvesWithI [where r = resp]) (simp add: ensureAuthentication_def createError_def)
  next
    case False
    with answers created have "carriesSession resp"
      by (metis fst_conv snd_conv)
    then obtain session where "sessionOf resp = Some session" "\<not> nullish session"
      by (auto simp: carriesSession_def split: option.splits)
    with False absent capi created show ?thesis
      by (intro resolvesWithI [where r = resp])
         (simp add: ensureAuthentication_def createError_def storeSessionInfo_def nullish_def Let_def)
  qed
qed

lemma isLoggedIn_resolves:
  assumes "CAPI this = Some us"
  shows "resolvesWith (isLoggedIn this)
           (if getItem (storage this) KEY_SESSION_ID = JNull then JBool True
            else fst (refreshSession us (getItem (storage this) KEY_SESSION_ID)))"
proof (cases "getItem (storage this) KEY_SESSION_ID = JNull")
  case True
  with assms show ?thesis
    by (intro resolvesWithI [where r = "JBool False"]) (simp add: isLoggedIn_def)
next
  case False
  obtain err res where "refreshSession us (getItem (storage this) KEY_SESSION_ID) = (err, res)"
    by (cases "refreshSession us (getItem (storage this) KEY_SESSION_ID)")
  with False assms show ?thesis
    by (intro resolvesWithI [where r = res]) (simp add: isLoggedIn_def Let_def)
qed

lemma logOut_resolves:
  assumes "CAPI this = Some us"
  shows "resolvesWith (logOut this)
           (if getItem (storage this) KEY_SESSION_HREF = JNull then JBool False
            else fst (deleteSession us (getItem (storage this) KEY_SESSION_HREF)))"
proof (cases "getItem (storage this) KEY_SESSION_HREF = JNull")
  case True
  with assms show ?thesis
    by (intro resolvesWithI [where r = "JBool True"]) (simp add: logOut_def)
next
  case False
  obtain err res where "deleteSession us (getItem (storage this) KEY_SESSION_HREF) = (err, res)"
    by (cases "deleteSession us (getItem (storage this) KEY_SESSION_HREF)")
  with False assms show ?thesis
    by (intro resolvesWithI [where r = res]) (simp add: logOut_def Let_def)
qed

lemma authenticateRequest_resolves:
  assumes "property request (str ''method'') = JStr m"
    and "property request (str ''headers'') = JObj hs"
  shows "resolvesWith (authenticateRequest this request) (JBool False)"
proof -
  obtain ps where obj: "request = JObj ps"
    using assms(1) by (cases request) simp_all
  show ?thesis
  proof (cases "property SAFE_METHODS (toUpperString m) \<noteq> JNum 1 \<and>
                getItem (storage this) KEY_CSRF_TOKEN \<noteq> JNull")
    case True
    with assms obj show ?thesis
      by (intro resolvesWithI) (simp add: authenticateRequest_def nullish_def del: property.simps)
  next
    case False
    with assms obj show ?thesis
      by (intro resolvesWithI [where r = request])
         (auto simp: authenticateRequest_def nullish_def simp del: property.simps)
  qed
qed

text \<open>
  \<open>logIn\<close> hands the error of its \<open>logOut\<close> step to nobody: what its callback receives is
  what the \<open>ensureAuthentication\<close> that follows reports.
\<close>

lemma logIn_resolves:
  assumes capi: "CAPI this = Some us"
    and answers: "\<forall>st. truthy (fst (createSession us st)) \<or> carriesSession (snd (createSession us st))"
  shows "resolvesWith (logIn this)
           (if getItem (storage this) KEY_SESSION_ID = JNull \<or>
               (getItem (storage this) KEY_SESSION_HREF \<noteq> JNull \<and>
                \<not> truthy (fst (deleteSession us (getItem (storage this) KEY_SESSION_HREF))))
            then createError us this else JBool False)"
proof (cases "getItem (storage this) KEY_SESSION_ID = JNull")
  case True
  then have "logIn this = ensureAuthentication this"
    by (simp add: logIn_def fun_eq_iff)
  with True ensureAuthentication_resolves [OF capi answers] show ?thesis by simp
next
  case stored: False
  show ?thesis
  proof (cases "getItem (storage this) KEY_SESSION_HREF = JNull")
    case True
    with stored capi show ?thesis
      by (intro resolvesWithI [where r = "JBool True" and that = this])
         (simp add: logIn_def logOut_def ensureAuthentication_def)
  next
    case href: False
    obtain err res where
      deleted: "deleteSession us (getItem (storage this) KEY_SESSION_HREF) = (err, res)"
      by (cases "deleteSession us (getItem (storage this) KEY_SESSION_HREF)")
    define that where
      "that = this\<lparr>trace := trace this @ [DeleteSession (getItem (storage this) KEY_SESSION_HREF)]\<rparr>"
    show ?thesis
    proof (cases "truthy err")
      case True
      with stored href capi deleted show ?thesis
        by (intro resolvesWithI [where r = "JBool True" and that = that])
           (simp add: logIn_def logOut_def ensureAuthentication_def that_def)
    next
      case False
      have "CAPI (resetStorage that) = Some us"
        by (simp add: resetStorage_fields that_def capi)
      from ensureAuthentication_resolves [OF this answers]
      have "resolvesWith (ensureAuthentication (resetStorage that)) (createError us this)"
        using resetStorage_absent [of that]
        by (simp add: sessionAbsent_def createError_def resetStorage_fields that_def)
      then obtain r final where
        "\<And>done. ensureAuthentication (resetStorage that) done = done (createError us this) r final"
        by (auto simp: resolvesWith_def)
      with False stored href capi deleted show ?thesis
        by (intro resolvesWithI [where r = r and that = final])
           (simp add: logIn_def logOut_def that_def)
    qed
  qed
qed

text \<open>
  C9, as the code has it. With the session service set, every answer to a create request
  either reporting an error or carrying a session, and the request an object with a
  string method and an object as headers, each of the five operations does nothing in
  the end but invoke its callback once. \<open>ensureAuthentication\<close>, \<open>isLoggedIn\<close> and
  \<open>logOut\<close> hand on the very error the service reported to them. \<open>logIn\<close> hands on the
  error of creating a session, or \<open>false\<close>; an error of the \<open>logOut\<close> it starts with is
  dropped.
\<close>

theorem operations_resolve_once:
  assumes "CAPI this = Some us"
    and "\<forall>st. truthy (fst (createSession us st)) \<or> carriesSession (snd (createSession us st))"
    and "property request (str ''method'') = JStr m"
    and "property request (str ''headers'') = JObj hs"
  shows "resolvesWith (ensureAuthentication this)
           (if getItem (storage this) KEY_SESSION_ID \<noteq> JNull then JBool False
            else createError us this) \<and>
         resolvesWith (isLoggedIn this)
           (if getItem (storage this) KEY_SESSION_ID = JNull then JBool True
            else fst (refreshSession us (getItem (storage this) KEY_SESSION_ID))) \<and>
         resolvesWith (authenticateRequest this request) (JBool False) \<and>
         resolvesWith (logOut this)
           (if getItem (storage this) KEY_SESSION_HREF = JNull then JBool False
            else fst (deleteSession us (getItem (storage this) KEY_SESSION_HREF))) \<and>
         resolvesWith (logIn this)
           (if getItem (storage this) KEY_SESSION_ID = JNull \<or>
               (getItem (storage this) KEY_SESSION_HREF \<noteq> JNull \<and>
                \<not> truthy (fst (deleteSession us (getItem (storage this) KEY_SESSION_HREF))))
            then createError us this else JBool False)"
proof (intro conjI)
  show "resolvesWith (ensureAuthentication this)
           (if getItem (storage this) KEY_SESSION_ID \<noteq> JNull then JBool False
            else createError us this)"
    using assms(1,2) by (rule ensureAuthentication_resolves)
  show "resolvesWith (isLoggedIn this)
           (if getItem (storage this) KEY_SESSION_ID = JNull then JBool True
            else fst (refreshSession us (getItem (storage this) KEY_SESSION_ID)))"
    using assms(1) by (rule isLoggedIn_resolves)
  show "resolvesWith (authenticateRequest this request) (JBool False)"
    using assms(3,4) by (rule authenticateRequest_resolves)
  show "resolvesWith (logOut this)
           (if getItem (storage this) KEY_SESSION_HREF = JNull then JBool False
            else fst (deleteSession us (getItem (storage this) KEY_SESSION_HREF)))"
    using assms(1) by (rule logOut_resolves)
  show "resolvesWith (logIn this)
           (if getItem (storage this) KEY_SESSION_ID = JNull \<or>
               (getItem (storage this) KEY_SESSION_HREF \<noteq> JNull \<and>
                \<not> truthy (fst (deleteSession us (getItem (storage this) KEY_SESSION_HREF))))
            then createError us this else JBool False)"
    using assms(1,2) by (rule logIn_resolves)
qed

theorem operations_resolve_once_witness:
  "resolvesWith (ensureAuthentication (agentOn faultyService storedAbc)) (JBool False) \<and>
   resolvesWith (isLoggedIn (agentOn faultyService storedAbc)) (JStr (str ''refresh failed'')) \<and>
   resolvesWith (authenticateRequest (agentOn faultyService storedAbc)
      (JObj [(str ''method'', JStr (str ''POST'')), (str ''headers'', JObj [])])) (JBool False) \<and>
   resolvesWith (logOut (agentOn faultyService storedAbc)) (JStr (str ''delete failed'')) \<and>
   resolvesWith (logIn (agentOn faultyService storedAbc)) (JBool False)"
proof -
  have "CAPI (agentOn faultyService storedAbc) = Some faultyService"
    by (simp add: agentOn_fields)
  moreover have "\<forall>st. truthy (fst (createSession faultyService st)) \<or>
                     carriesSession (snd (createSession faultyService st))"
    by (simp add: faultyService_def)
  moreover have
    "property (JObj [(str ''method'', JStr (str ''POST'')), (str ''headers'', JObj [])]) (str ''method'') = JStr (str ''POST'')"
    by simp
  moreover have
    "property (JObj [(str ''method'', JStr (str ''POST'')), (str ''headers'', JObj [])]) (str ''headers'') = JObj []"
    by simp
  ultimately show ?thesis
    using operations_resolve_once
            [of "agentOn faultyService storedAbc" faultyService
                "JObj [(str ''method'', JStr (str ''POST'')), (str ''headers'', JObj [])]" "(str ''POST'')" "[]"]
    by (simp add: agentOn_fields storedAbc_items createError_def faultyService_def)
qed

text \<open>
  C9 as stated fails in \<open>logIn\<close>: with a session stored and a service whose
  \<open>deleteSession\<close> reports the error "delete failed", the only callback invocation is
  with \<open>false\<close> and \<open>true\<close>; the error reaches no callback.
\<close>

theorem logIn_drops_logOut_error:
  "deleteSession faultyService (JStr (str ''/sessions/abc'')) = (JStr (str ''delete failed''), JBool False) \<and>
   truthy (JStr (str ''delete failed'')) \<and>
   logIn (agentOn faultyService storedAbc) report =
     Returned \<lparr>CAPI = Some faultyService, login = JStr (str ''admin''), password = JStr (str ''publish''),
       storage = storedAbc,
       trace = [DeleteSession (JStr (str ''/sessions/abc'')), Resolved (JBool False) (JBool True)]\<rparr>"
  by (simp add: logIn_def logOut_def ensureAuthentication_def agentOn_def storedAbc_items
      faultyService_def report_def)

end
